theory Spec2Isabelle
  imports Main
begin

section \<open>Python strings\<close>

text \<open>
  A Python \<open>str\<close> is a sequence of Unicode code points. A code point is modelled as a
  natural number and a string as a list of them, so that the line boundaries and the
  whitespace characters beyond ASCII that \<open>str.splitlines\<close>, \<open>str.split\<close> and
  \<open>str.strip\<close> recognise are part of the model.
\<close>

type_synonym pychar = nat
type_synonym pystr = "pychar list"

definition str :: "string \<Rightarrow> pystr" where
  "str s = map of_char s"

definition LF :: pychar where
  "LF = 10"

definition CR :: pychar where
  "CR = 13"

text \<open>
  \<open>Py_UNICODE_ISSPACE\<close>: the characters that \<open>str.strip()\<close> and \<open>str.split()\<close>
  (both called without an argument) treat as whitespace.
\<close>

definition is_space :: "pychar \<Rightarrow> bool" where
  "is_space c =
     ((9 \<le> c \<and> c \<le> 13) \<or> (28 \<le> c \<and> c \<le> 32) \<or> c = 133 \<or> c = 160 \<or> c = 5760
      \<or> (8192 \<le> c \<and> c \<le> 8202) \<or> c = 8232 \<or> c = 8233 \<or> c = 8239 \<or> c = 8287
      \<or> c = 12288)"

text \<open>\<open>Py_UNICODE_ISLINEBREAK\<close>: the line boundaries of \<open>str.splitlines\<close>.\<close>

definition is_linebreak :: "pychar \<Rightarrow> bool" where
  "is_linebreak c =
     ((10 \<le> c \<and> c \<le> 13) \<or> (28 \<le> c \<and> c \<le> 30) \<or> c = 133 \<or> c = 8232 \<or> c = 8233)"

text \<open>\<open>s.strip()\<close>: leading and trailing whitespace removed.\<close>

definition strip :: "pystr \<Rightarrow> pystr" where
  "strip s = rev (dropWhile is_space (rev (dropWhile is_space s)))"

text \<open>
  \<open>s.splitlines(keepends=False)\<close>. The scan carries the line read so far in \<open>cur\<close>;
  \<open>cr\<close> records that the previous character was a carriage return that closed a line,
  so that a line feed right after it belongs to the same boundary. A text that ends in
  a line boundary has no empty last line.
\<close>

fun splitlines_from :: "bool \<Rightarrow> pystr \<Rightarrow> pystr \<Rightarrow> pystr list" where
  "splitlines_from cr cur [] = (if cur = [] then [] else [cur])"
| "splitlines_from cr cur (c # s) =
     (if cr \<and> c = LF then splitlines_from False cur s
      else if is_linebreak c then cur # splitlines_from (c = CR) [] s
      else splitlines_from False (cur @ [c]) s)"

definition splitlines :: "pystr \<Rightarrow> pystr list" where
  "splitlines s = splitlines_from False [] s"

text \<open>
  \<open>s.split()\<close>: the maximal runs of non-whitespace characters, in order; no empty
  token is produced.
\<close>

fun split_from :: "pystr \<Rightarrow> pystr \<Rightarrow> pystr list" where
  "split_from cur [] = (if cur = [] then [] else [cur])"
| "split_from cur (c # s) =
     (if is_space c then (if cur = [] then split_from [] s else cur # split_from [] s)
      else split_from (cur @ [c]) s)"

definition split_ws :: "pystr \<Rightarrow> pystr list" where
  "split_ws s = split_from [] s"

definition startswith :: "pystr \<Rightarrow> pystr \<Rightarrow> bool" where
  "startswith s p = (take (length p) s = p)"

definition endswith :: "pystr \<Rightarrow> pystr \<Rightarrow> bool" where
  "endswith s p = (length p \<le> length s \<and> drop (length s - length p) s = p)"

text \<open>\<open>sep.join(xs)\<close>.\<close>

fun join :: "pystr \<Rightarrow> pystr list \<Rightarrow> pystr" where
  "join sep [] = []"
| "join sep [x] = x"
| "join sep (x # y # ys) = x @ sep @ join sep (y # ys)"

text \<open>\<open>sub in s\<close>: \<open>sub\<close> occurs in \<open>s\<close> as a contiguous substring.\<close>

fun py_in :: "pystr \<Rightarrow> pystr \<Rightarrow> bool" where
  "py_in sub [] = (sub = [])"
| "py_in sub (c # s) = (startswith (c # s) sub \<or> py_in sub s)"

section \<open>Python values and exceptions\<close>

text \<open>
  The entries of the suffix list are arbitrary Python objects: the function does not
  check them. \<open>str.endswith\<close> accepts a string or a tuple of strings and raises
  \<open>TypeError\<close> on anything else.
\<close>

datatype pyobj = PyStr pystr | PyInt int | PyNone | PyTuple "pyobj list"

datatype pyerr = TypeError | IndexError

fun endswith_tuple :: "pystr \<Rightarrow> pyobj list \<Rightarrow> pyerr + bool" where
  "endswith_tuple s [] = Inr False"
| "endswith_tuple s (PyStr p # ps) = (if endswith s p then Inr True else endswith_tuple s ps)"
| "endswith_tuple s (_ # ps) = Inl TypeError"

fun py_endswith :: "pystr \<Rightarrow> pyobj \<Rightarrow> pyerr + bool" where
  "py_endswith s (PyStr p) = Inr (endswith s p)"
| "py_endswith s (PyTuple ps) = endswith_tuple s ps"
| "py_endswith s _ = Inl TypeError"

text \<open>\<open>xs[i]\<close> for a non-negative index: \<open>IndexError\<close> out of range.\<close>

definition py_index :: "'a list \<Rightarrow> nat \<Rightarrow> pyerr + 'a" where
  "py_index xs i = (if i < length xs then Inr (xs ! i) else Inl IndexError)"

section \<open>The chunk filter\<close>

definition EXCLUDED_EXTENSIONS :: "pyobj list" where
  "EXCLUDED_EXTENSIONS =
     map (PyStr \<circ> str)
       [''.pbxproj'', ''.storyboard'', ''.svg'', ''.png'', ''.jpg'', ''.jpeg'', ''.gif'',
        ''.ico'']"

definition diff_header_prefix :: pystr where
  "diff_header_prefix = str ''diff --git ''"

text \<open>The three local variables that the loop of \<open>filter_excluded_files\<close> updates.\<close>

record scan_state =
  kept_chunks :: "pystr list"
  current_chunk_lines :: "pystr list"
  skip_current_chunk :: bool

definition init_state :: scan_state where
  "init_state = \<lparr>kept_chunks = [], current_chunk_lines = [], skip_current_chunk = False\<rparr>"

definition finalize_chunk :: "scan_state \<Rightarrow> scan_state" where
  "finalize_chunk st =
     (if \<not> skip_current_chunk st \<and> current_chunk_lines st \<noteq> []
      then st\<lparr>kept_chunks := kept_chunks st @ current_chunk_lines st\<rparr>
      else st)"

text \<open>
  The loop over \<open>excluded_exts\<close>: the value is the skip flag it leaves, or the exception
  that \<open>endswith\<close> raises. \<open>or\<close> evaluates its right operand only when the left one is
  false, and \<open>break\<close> ends the loop at the first match.
\<close>

fun check_exts :: "pystr \<Rightarrow> pystr \<Rightarrow> pyobj list \<Rightarrow> pyerr + bool" where
  "check_exts file_a file_b [] = Inr False"
| "check_exts file_a file_b (ext # exts) =
     (case py_endswith file_a ext of
        Inl e \<Rightarrow> Inl e
      | Inr True \<Rightarrow> Inr True
      | Inr False \<Rightarrow>
          (case py_endswith file_b ext of
             Inl e \<Rightarrow> Inl e
           | Inr True \<Rightarrow> Inr True
           | Inr False \<Rightarrow> check_exts file_a file_b exts))"

text \<open>The skip flag that a header line sets.\<close>

definition header_skip :: "pystr \<Rightarrow> pyobj list \<Rightarrow> pyerr + bool" where
  "header_skip line excluded_exts =
     (let parts = split_ws line in
      if 4 \<le> length parts then
        (case py_index parts 2 of
           Inl e \<Rightarrow> Inl e
         | Inr p2 \<Rightarrow>
             (case py_index parts 3 of
                Inl e \<Rightarrow> Inl e
              | Inr p3 \<Rightarrow> check_exts (drop 2 p2) (drop 2 p3) excluded_exts))
      else Inr False)"

text \<open>The body of the loop over the lines.\<close>

definition process_line :: "pyobj list \<Rightarrow> scan_state \<Rightarrow> pystr \<Rightarrow> pyerr + scan_state" where
  "process_line excluded_exts st line =
     (if startswith line diff_header_prefix then
        (let st1 = finalize_chunk st;
             st2 = st1\<lparr>current_chunk_lines := [], skip_current_chunk := False\<rparr>
         in case header_skip line excluded_exts of
              Inl e \<Rightarrow> Inl e
            | Inr sk \<Rightarrow> Inr (st2\<lparr>skip_current_chunk := sk, current_chunk_lines := [line]\<rparr>))
      else Inr (st\<lparr>current_chunk_lines := current_chunk_lines st @ [line]\<rparr>))"

fun scan_lines :: "pyobj list \<Rightarrow> scan_state \<Rightarrow> pystr list \<Rightarrow> pyerr + scan_state" where
  "scan_lines excluded_exts st [] = Inr st"
| "scan_lines excluded_exts st (line # lines) =
     (case process_line excluded_exts st line of
        Inl e \<Rightarrow> Inl e
      | Inr st' \<Rightarrow> scan_lines excluded_exts st' lines)"

definition filter_excluded_files :: "pystr \<Rightarrow> pyobj list \<Rightarrow> pyerr + pystr" where
  "filter_excluded_files diff excluded_exts =
     (if strip diff = [] then Inr diff
      else
        (case scan_lines excluded_exts init_state (splitlines diff) of
           Inl e \<Rightarrow> Inl e
         | Inr st \<Rightarrow> Inr (join [LF] (kept_chunks (finalize_chunk st)) @ [LF])))"

section \<open>The decision layer\<close>

text \<open>
  The end of \<open>main\<close>, from the test of the filtered diff to the exit status. The review
  invoker \<open>call_openai_api\<close> talks to an external service; it is a parameter
  \<open>review\<close> that maps the filtered diff and the context to the verdict text.
\<close>

definition APPROVED :: pystr where
  "APPROVED = str ''APPROVED''"

definition main_decision :: "(pystr \<Rightarrow> pystr \<Rightarrow> pystr) \<Rightarrow> pystr \<Rightarrow> pystr \<Rightarrow> nat" where
  "main_decision review diff_content context =
     (if strip diff_content = [] then 0
      else
        (let feedback = review diff_content context in
         if py_in APPROVED feedback then 0 else 1))"

section \<open>Chunks\<close>

text \<open>A header line is a line that starts with the literal \<open>diff --git \<close>.\<close>

definition is_header :: "pystr \<Rightarrow> bool" where
  "is_header line = startswith line diff_header_prefix"

text \<open>
  The chunks of a list of lines, as the specification has them: a chunk begins at a
  line and runs until the next header line or the end of the text.
\<close>

function chunks :: "pystr list \<Rightarrow> pystr list list" where
  "chunks [] = []"
| "chunks (l # ls) =
     (l # takeWhile (\<lambda>x. \<not> is_header x) ls) # chunks (dropWhile (\<lambda>x. \<not> is_header x) ls)"
  by pat_completeness auto
termination
  by (relation "measure length") (auto simp: length_dropWhile_le less_Suc_eq_le)

text \<open>
  The exclusion policy in the words of the specification: the header line has at least
  four whitespace-separated tokens, and the third or the fourth one, without its first
  two characters, ends with a suffix of the policy.
\<close>

definition chunk_excluded :: "pystr list \<Rightarrow> pystr \<Rightarrow> bool" where
  "chunk_excluded suffixes header =
     (let tokens = split_ws header in
      4 \<le> length tokens \<and>
      (\<exists>s \<in> set suffixes.
         endswith (drop 2 (tokens ! 2)) s \<or> endswith (drop 2 (tokens ! 3)) s))"

text \<open>
  The filtered diff text in the words of the specification: the chunks that the policy
  does not exclude, in order, their lines joined by newlines, and one newline at the end.
\<close>

definition filtered_diff_text :: "(pystr \<Rightarrow> bool) \<Rightarrow> pystr list \<Rightarrow> pystr" where
  "filtered_diff_text excluded lines =
     join [LF] (concat (filter (\<lambda>c. \<not> excluded (hd c)) (chunks lines))) @ [LF]"

text \<open>
  The lines that a scan keeps, line by line: \<open>skip\<close> is the skip flag of the chunk that
  the scan is in, and \<open>excluded\<close> is the flag that a header line sets.
\<close>

fun keep_lines :: "(pystr \<Rightarrow> bool) \<Rightarrow> bool \<Rightarrow> pystr list \<Rightarrow> pystr list" where
  "keep_lines excluded skip [] = []"
| "keep_lines excluded skip (l # ls) =
     (if is_header l
      then (if excluded l then [] else [l]) @ keep_lines excluded (excluded l) ls
      else (if skip then [] else [l]) @ keep_lines excluded skip ls)"

section \<open>Strings: basic facts\<close>

lemmas py_eval =
  str_def LF_def CR_def is_space_def is_linebreak_def strip_def splitlines_def split_ws_def
  startswith_def endswith_def diff_header_prefix_def is_header_def init_state_def
  finalize_chunk_def header_skip_def py_index_def process_line_def
  filter_excluded_files_def chunk_excluded_def filtered_diff_text_def APPROVED_def
  main_decision_def EXCLUDED_EXTENSIONS_def

lemma dropWhile_all: "(\<forall>c\<in>set (dropWhile P s). P c) \<longleftrightarrow> (\<forall>c\<in>set s. P c)"
  by (induction s) auto

lemma strip_empty_iff: "strip s = [] \<longleftrightarrow> (\<forall>c\<in>set s. is_space c)"
proof -
  have "strip s = [] \<longleftrightarrow> (\<forall>c\<in>set (rev (dropWhile is_space s)). is_space c)"
    by (simp add: strip_def)
  then show ?thesis
    by (simp add: dropWhile_all)
qed

lemma startswith_iff: "startswith s p \<longleftrightarrow> (\<exists>v. s = p @ v)"
proof
  assume "startswith s p"
  then have "s = p @ drop (length p) s"
    by (metis append_take_drop_id startswith_def)
  then show "\<exists>v. s = p @ v" ..
next
  assume "\<exists>v. s = p @ v"
  then show "startswith s p"
    by (auto simp: startswith_def)
qed


lemma py_in_iff: "py_in sub s \<longleftrightarrow> (\<exists>u v. s = u @ sub @ v)"
proof (induction s)
  case Nil
  then show ?case by auto
next
  case (Cons c s)
  show ?case
  proof
    assume "py_in sub (c # s)"
    then consider "startswith (c # s) sub" | "py_in sub s" by auto
    then show "\<exists>u v. c # s = u @ sub @ v"
    proof cases
      case 1
      then obtain v where "c # s = sub @ v" by (auto simp: startswith_iff)
      then have "c # s = [] @ sub @ v" by simp
      then show ?thesis by blast
    next
      case 2
      with Cons.IH obtain u v where "s = u @ sub @ v" by auto
      then have "c # s = (c # u) @ sub @ v" by simp
      then show ?thesis by blast
    qed
  next
    assume "\<exists>u v. c # s = u @ sub @ v"
    then obtain u v where uv: "c # s = u @ sub @ v" by auto
    show "py_in sub (c # s)"
    proof (cases u)
      case Nil
      with uv have "c # s = sub @ v" by simp
      then have "startswith (c # s) sub"
        unfolding startswith_iff by blast
      then show ?thesis by simp
    next
      case (Cons a u')
      with uv have "s = u' @ sub @ v" by simp
      with Cons.IH show ?thesis by auto
    qed
  qed
qed

section \<open>Lines\<close>

lemma splitlines_from_no_break:
  "list_all (\<lambda>x. \<not> is_linebreak x) cur \<Longrightarrow>
     list_all (list_all (\<lambda>x. \<not> is_linebreak x)) (splitlines_from cr cur s)"
  by (induction s arbitrary: cr cur) simp_all

lemma splitlines_no_break: "\<forall>l\<in>set (splitlines s). \<forall>x\<in>set l. \<not> is_linebreak x"
  using splitlines_from_no_break[of "[]" False s]
  by (simp add: splitlines_def list_all_iff)

lemma splitlines_from_chars:
  "l \<in> set (splitlines_from cr cur s) \<Longrightarrow> set l \<subseteq> set cur \<union> set s"
  by (induction s arbitrary: cr cur) (fastforce split: if_splits)+

lemma splitlines_chars: "l \<in> set (splitlines s) \<Longrightarrow> set l \<subseteq> set s"
  using splitlines_from_chars[of l False "[]" s] by (simp add: splitlines_def)

lemma splitlines_from_line:
  "\<forall>c\<in>set l. \<not> is_linebreak c \<Longrightarrow>
     splitlines_from False cur (l @ LF # rest) = (cur @ l) # splitlines_from False [] rest"
  by (induction l arbitrary: cur) (auto simp: is_linebreak_def LF_def CR_def)

lemma splitlines_terminated:
  "\<forall>l\<in>set ls. \<forall>c\<in>set l. \<not> is_linebreak c \<Longrightarrow>
     splitlines (concat (map (\<lambda>l. l @ [LF]) ls)) = ls"
  unfolding splitlines_def
  by (induction ls) (simp_all add: splitlines_from_line)

lemma join_terminated: "ls \<noteq> [] \<Longrightarrow> join [LF] ls @ [LF] = concat (map (\<lambda>l. l @ [LF]) ls)"
  by (induction "[LF]" ls rule: join.induct) simp_all

lemma splitlines_join:
  "ls \<noteq> [] \<Longrightarrow> \<forall>l\<in>set ls. \<forall>c\<in>set l. \<not> is_linebreak c \<Longrightarrow>
     splitlines (join [LF] ls @ [LF]) = ls"
  by (simp add: join_terminated splitlines_terminated)

lemma header_not_blank: "is_header h \<Longrightarrow> \<exists>c\<in>set h. \<not> is_space c"
proof -
  assume "is_header h"
  then obtain v where "h = diff_header_prefix @ v"
    by (auto simp: is_header_def startswith_iff)
  then have "100 \<in> set h"
    by (simp add: diff_header_prefix_def str_def)
  moreover have "\<not> is_space 100"
    by (simp add: is_space_def)
  ultimately show ?thesis by blast
qed

lemma header_line_not_blank:
  "h \<in> set (splitlines D) \<Longrightarrow> is_header h \<Longrightarrow> strip D \<noteq> []"
  using header_not_blank[of h] splitlines_chars[of h D]
  by (auto simp: strip_empty_iff)

section \<open>The suffix check of a header line\<close>

lemma check_exts_str:
  "check_exts a b (map PyStr S) = Inr (\<exists>s\<in>set S. endswith a s \<or> endswith b s)"
  by (induction S) (auto split: bool.splits)

lemma header_skip_str: "header_skip h (map PyStr S) = Inr (chunk_excluded S h)"
  by (simp add: header_skip_def chunk_excluded_def py_index_def check_exts_str Let_def)

lemma endswith_tuple_error: "endswith_tuple s ps = Inl e \<Longrightarrow> e = TypeError"
  by (induction s ps rule: endswith_tuple.induct) (auto split: if_splits)

lemma py_endswith_error: "py_endswith s x = Inl e \<Longrightarrow> e = TypeError"
  by (cases x) (auto dest: endswith_tuple_error)

lemma check_exts_error: "check_exts a b exts = Inl e \<Longrightarrow> e = TypeError"
  by (induction exts) (auto split: sum.splits bool.splits dest: py_endswith_error)

lemma header_skip_error: "header_skip h exts = Inl e \<Longrightarrow> e = TypeError"
  by (auto simp: header_skip_def py_index_def Let_def split: if_splits dest: check_exts_error)


section \<open>The scan\<close>

lemma kept_finalize:
  "kept_chunks (finalize_chunk st) =
     kept_chunks st @ (if skip_current_chunk st then [] else current_chunk_lines st)"
  by (simp add: finalize_chunk_def)

lemma process_body_line:
  "\<not> is_header l \<Longrightarrow>
     process_line exts st l = Inr (st\<lparr>current_chunk_lines := current_chunk_lines st @ [l]\<rparr>)"
  by (simp add: process_line_def is_header_def)

lemma process_header_line:
  "is_header l \<Longrightarrow> header_skip l exts = Inr sk \<Longrightarrow>
     process_line exts st l =
       Inr ((finalize_chunk st)\<lparr>current_chunk_lines := [l], skip_current_chunk := sk\<rparr>)"
  by (simp add: process_line_def is_header_def Let_def)

lemma process_header_line_error:
  "is_header l \<Longrightarrow> header_skip l exts = Inl e \<Longrightarrow> process_line exts st l = Inl e"
  by (simp add: process_line_def is_header_def Let_def)

lemma scan_body:
  "\<forall>l\<in>set body. \<not> is_header l \<Longrightarrow>
     scan_lines exts st body =
       Inr (st\<lparr>current_chunk_lines := current_chunk_lines st @ body\<rparr>)"
  by (induction body arbitrary: st) (simp_all add: process_body_line)

lemma scan_keep_lines:
  "\<forall>l\<in>set ls. is_header l \<longrightarrow> header_skip l exts = Inr (ex l) \<Longrightarrow>
     \<exists>st'. scan_lines exts st ls = Inr st' \<and>
       kept_chunks (finalize_chunk st') =
         kept_chunks (finalize_chunk st) @ keep_lines ex (skip_current_chunk st) ls"
proof (induction ls arbitrary: st)
  case Nil
  then show ?case by simp
next
  case (Cons l ls)
  show ?case
  proof (cases "is_header l")
    case True
    with Cons.prems have hs: "header_skip l exts = Inr (ex l)" by simp
    define st1 where
      "st1 = (finalize_chunk st)\<lparr>current_chunk_lines := [l], skip_current_chunk := ex l\<rparr>"
    have p: "process_line exts st l = Inr st1"
      using True hs by (simp add: process_header_line st1_def)
    from Cons.IH[of st1] Cons.prems obtain st' where
      s: "scan_lines exts st1 ls = Inr st'" and
      k: "kept_chunks (finalize_chunk st') =
            kept_chunks (finalize_chunk st1) @ keep_lines ex (skip_current_chunk st1) ls"
      by auto
    have "kept_chunks (finalize_chunk st1) =
            kept_chunks (finalize_chunk st) @ (if ex l then [] else [l])"
      by (simp add: kept_finalize st1_def)
    with p s k True show ?thesis by (simp add: st1_def)
  next
    case False
    define st1 where "st1 = st\<lparr>current_chunk_lines := current_chunk_lines st @ [l]\<rparr>"
    have p: "process_line exts st l = Inr st1"
      using False by (simp add: process_body_line st1_def)
    from Cons.IH[of st1] Cons.prems obtain st' where
      s: "scan_lines exts st1 ls = Inr st'" and
      k: "kept_chunks (finalize_chunk st') =
            kept_chunks (finalize_chunk st1) @ keep_lines ex (skip_current_chunk st1) ls"
      by auto
    have "kept_chunks (finalize_chunk st1) =
            kept_chunks (finalize_chunk st) @ (if skip_current_chunk st then [] else [l])"
      by (simp add: kept_finalize st1_def)
    with p s k False show ?thesis by (simp add: st1_def)
  qed
qed

lemma scan_fails_iff:
  "(\<exists>e. scan_lines exts st ls = Inl e) \<longleftrightarrow>
     (\<exists>l\<in>set ls. is_header l \<and> (\<exists>e. header_skip l exts = Inl e))"
proof (induction ls arbitrary: st)
  case Nil
  then show ?case by simp
next
  case (Cons l ls)
  show ?case
  proof (cases "is_header l")
    case False
    then show ?thesis
      using Cons.IH by (simp add: process_body_line)
  next
    case True
    show ?thesis
    proof (cases "header_skip l exts")
      case (Inl e)
      then show ?thesis
        using True by (auto simp: process_header_line_error)
    next
      case (Inr sk)
      then show ?thesis
        using True Cons.IH by (simp add: process_header_line)
    qed
  qed
qed

lemma scan_error: "scan_lines exts st ls = Inl e \<Longrightarrow> e = TypeError"
proof (induction ls arbitrary: st)
  case Nil
  then show ?case by simp
next
  case (Cons l ls)
  then show ?case
    by (auto simp: process_line_def Let_def split: sum.splits if_splits
        dest: header_skip_error)
qed

lemma filter_kept_lines:
  assumes "strip D \<noteq> []"
    and "\<forall>l\<in>set (splitlines D). is_header l \<longrightarrow> header_skip l exts = Inr (ex l)"
  shows "filter_excluded_files D exts =
           Inr (join [LF] (keep_lines ex False (splitlines D)) @ [LF])"
proof -
  from scan_keep_lines[OF assms(2), of init_state] obtain st' where
    "scan_lines exts init_state (splitlines D) = Inr st'" and
    "kept_chunks (finalize_chunk st') = keep_lines ex False (splitlines D)"
    by (auto simp: kept_finalize init_state_def)
  with assms(1) show ?thesis
    by (simp add: filter_excluded_files_def)
qed

lemma filter_blank: "\<forall>c\<in>set D. is_space c \<Longrightarrow> filter_excluded_files D exts = Inr D"
  by (simp add: filter_excluded_files_def strip_empty_iff)

section \<open>The kept lines\<close>

lemma keep_lines_idem: "keep_lines ex False (keep_lines ex sk ls) = keep_lines ex sk ls"
  by (induction ls arbitrary: sk) auto

lemma keep_lines_subset: "set (keep_lines ex sk ls) \<subseteq> set ls"
  by (induction ls arbitrary: sk) auto

lemma keep_lines_all: "keep_lines (\<lambda>_. False) False ls = ls"
  by (induction ls) auto

lemma keep_lines_append_body:
  "\<forall>l\<in>set body. \<not> is_header l \<Longrightarrow>
     keep_lines ex sk (body @ rest) = (if sk then [] else body) @ keep_lines ex sk rest"
  by (induction body) auto

lemma keep_lines_chunks:
  "ls = [] \<or> is_header (hd ls) \<Longrightarrow>
     keep_lines ex sk ls = concat (filter (\<lambda>c. \<not> ex (hd c)) (chunks ls))"
proof (induction ls arbitrary: sk rule: chunks.induct)
  case 1
  then show ?case by simp
next
  case (2 l ls)
  let ?body = "takeWhile (\<lambda>x. \<not> is_header x) ls"
  let ?rest = "dropWhile (\<lambda>x. \<not> is_header x) ls"
  have h: "is_header l" using "2.prems" by simp
  have r: "?rest = [] \<or> is_header (hd ?rest)"
    using hd_dropWhile[of "\<lambda>x. \<not> is_header x" ls] by auto
  have b: "\<forall>x\<in>set ?body. \<not> is_header x"
    by (auto dest: set_takeWhileD)
  have "keep_lines ex (ex l) ls = keep_lines ex (ex l) (?body @ ?rest)"
    by simp
  also have "\<dots> = (if ex l then [] else ?body) @ keep_lines ex (ex l) ?rest"
    using b by (rule keep_lines_append_body)
  also have "keep_lines ex (ex l) ?rest = concat (filter (\<lambda>c. \<not> ex (hd c)) (chunks ?rest))"
    using r by (rule "2.IH")
  finally show ?case using h by simp
qed

lemma keep_lines_preamble:
  "keep_lines ex False ls =
     takeWhile (\<lambda>x. \<not> is_header x) ls @
     concat (filter (\<lambda>c. \<not> ex (hd c)) (chunks (dropWhile (\<lambda>x. \<not> is_header x) ls)))"
proof -
  let ?pre = "takeWhile (\<lambda>x. \<not> is_header x) ls"
  let ?rest = "dropWhile (\<lambda>x. \<not> is_header x) ls"
  have r: "?rest = [] \<or> is_header (hd ?rest)"
    using hd_dropWhile[of "\<lambda>x. \<not> is_header x" ls] by auto
  have b: "\<forall>x\<in>set ?pre. \<not> is_header x"
    by (auto dest: set_takeWhileD)
  have "keep_lines ex False ls = keep_lines ex False (?pre @ ?rest)"
    by simp
  also have "\<dots> = ?pre @ keep_lines ex False ?rest"
    using keep_lines_append_body[OF b, of ex False ?rest] by simp
  finally show ?thesis
    using keep_lines_chunks[OF r, of ex False] by simp
qed

lemma concat_chunks: "concat (chunks ls) = ls"
  by (induction ls rule: chunks.induct) simp_all

lemma chunks_well_formed:
  "ls = [] \<or> is_header (hd ls) \<Longrightarrow>
     \<forall>c\<in>set (chunks ls). c \<noteq> [] \<and> is_header (hd c) \<and> (\<forall>l\<in>set (tl c). \<not> is_header l)"
proof (induction ls rule: chunks.induct)
  case 1
  then show ?case by simp
next
  case (2 l ls)
  let ?rest = "dropWhile (\<lambda>x. \<not> is_header x) ls"
  have r: "?rest = [] \<or> is_header (hd ?rest)"
    using hd_dropWhile[of "\<lambda>x. \<not> is_header x" ls] by auto
  have b: "\<forall>x\<in>set (takeWhile (\<lambda>x. \<not> is_header x) ls). \<not> is_header x"
    by (auto dest: set_takeWhileD)
  have h: "is_header l" using "2.prems" by simp
  show ?case
  proof
    fix c
    assume "c \<in> set (chunks (l # ls))"
    then consider "c = l # takeWhile (\<lambda>x. \<not> is_header x) ls" | "c \<in> set (chunks ?rest)"
      by auto
    then show "c \<noteq> [] \<and> is_header (hd c) \<and> (\<forall>l\<in>set (tl c). \<not> is_header l)"
    proof cases
      case 1
      with b h show ?thesis by simp
    next
      case 2
      with "2.IH"[OF r] show ?thesis by blast
    qed
  qed
qed

lemma filter_str_kept:
  "strip D \<noteq> [] \<Longrightarrow>
     filter_excluded_files D (map PyStr S) =
       Inr (join [LF] (keep_lines (chunk_excluded S) False (splitlines D)) @ [LF])"
  by (rule filter_kept_lines) (simp_all add: header_skip_str)

lemma check_exts_append_str:
  "check_exts a b (map PyStr pre @ rest) =
     (if \<exists>s\<in>set pre. endswith a s \<or> endswith b s then Inr True else check_exts a b rest)"
  by (induction pre) (auto split: bool.splits)


lemma filter_first_line_header:
  assumes "splitlines D = h # rest" and "is_header h"
  shows "filter_excluded_files D (map PyStr S) =
           Inr (filtered_diff_text (chunk_excluded S) (splitlines D))"
proof -
  have "h \<in> set (splitlines D)" using assms(1) by simp
  then have nb: "strip D \<noteq> []"
    using assms(2) by (rule header_line_not_blank)
  have "splitlines D = [] \<or> is_header (hd (splitlines D))"
    using assms by simp
  then have "keep_lines (chunk_excluded S) False (splitlines D) =
      concat (filter (\<lambda>c. \<not> chunk_excluded S (hd c)) (chunks (splitlines D)))"
    by (rule keep_lines_chunks)
  with filter_str_kept[OF nb, of S] show ?thesis
    by (simp add: filtered_diff_text_def)
qed

section \<open>Empty and blank input\<close>

text \<open>
  Claim C7. For every suffix list, also one with entries that are not strings, a diff
  text that is empty or consists of whitespace only is returned as it is: no newline
  is added and no line terminator is changed. In particular the empty text gives the
  empty text.
\<close>

theorem blank_input_unchanged:
  "\<forall>c\<in>set D. is_space c \<Longrightarrow> filter_excluded_files D exts = Inr D"
  by (rule filter_blank)

theorem blank_input_unchanged_witness:
  "filter_excluded_files [] EXCLUDED_EXTENSIONS = Inr [] \<and>
   filter_excluded_files [32, 10, 9] EXCLUDED_EXTENSIONS = Inr [32, 10, 9]"
  using blank_input_unchanged[of "[]" EXCLUDED_EXTENSIONS]
    blank_input_unchanged[of "[32, 10, 9]" EXCLUDED_EXTENSIONS]
  by (simp add: is_space_def)

section \<open>Totality\<close>

text \<open>
  Claim C8. For every diff text and every list of string suffixes the filter returns a
  text: neither the indexing of the header tokens nor \<open>endswith\<close> raises. The function
  is a pure function of its two arguments.
\<close>

theorem filter_total_on_strings:
  "\<exists>out. filter_excluded_files D (map PyStr S) = Inr out"
proof (cases "strip D = []")
  case True
  then show ?thesis by (simp add: filter_excluded_files_def)
next
  case False
  then show ?thesis by (simp add: filter_str_kept)
qed

theorem filter_total_on_strings_witness:
  "filter_excluded_files
     (str ''diff --git a/main.go b/main.go'' @ [LF] @ str ''+x=1'' @ [LF] @
      str ''diff --git a/asset.svg b/asset.svg'' @ [LF] @ str ''+<svg/>'' @ [LF])
     (map PyStr [str ''.svg'']) =
   Inr (str ''diff --git a/main.go b/main.go'' @ [LF] @ str ''+x=1'' @ [LF])"
  using filter_total_on_strings[of
      "str ''diff --git a/main.go b/main.go'' @ [LF] @ str ''+x=1'' @ [LF] @
       str ''diff --git a/asset.svg b/asset.svg'' @ [LF] @ str ''+<svg/>'' @ [LF]"
      "[str ''.svg'']"]
  by (simp add: py_eval)

section \<open>Idempotence\<close>

text \<open>
  Claim C4. For every diff text and every list of string suffixes, the filter returns a
  text, and filtering that text again with the same suffixes returns it unchanged.
\<close>

theorem filter_idempotent:
  "\<exists>out. filter_excluded_files D (map PyStr S) = Inr out \<and>
         filter_excluded_files out (map PyStr S) = Inr out"
proof (cases "strip D = []")
  case True
  then show ?thesis by (simp add: filter_excluded_files_def)
next
  case False
  let ?K = "keep_lines (chunk_excluded S) False (splitlines D)"
  let ?out = "join [LF] ?K @ [LF]"
  have first: "filter_excluded_files D (map PyStr S) = Inr ?out"
    using False by (rule filter_str_kept)
  have second: "filter_excluded_files ?out (map PyStr S) = Inr ?out"
  proof (cases "strip ?out = []")
    case True
    then show ?thesis by (simp add: filter_excluded_files_def)
  next
    case nb: False
    have ne: "?K \<noteq> []"
    proof
      assume "?K = []"
      then have "strip ?out = []"
        by (simp add: strip_empty_iff is_space_def LF_def)
      with nb show False by simp
    qed
    have "\<forall>l\<in>set ?K. \<forall>c\<in>set l. \<not> is_linebreak c"
      using keep_lines_subset[of "chunk_excluded S" False "splitlines D"]
        splitlines_no_break[of D] by blast
    with ne have "splitlines ?out = ?K"
      by (rule splitlines_join)
    with filter_str_kept[OF nb, of S] show ?thesis
      by (simp add: keep_lines_idem)
  qed
  from first second show ?thesis by blast
qed

theorem filter_idempotent_witness:
  "filter_excluded_files
     (str ''intro'' @ [CR, LF] @ str ''diff --git a/a.png b/a.png'' @ [CR, LF] @ str ''-p'' @
      [CR, LF] @ str ''diff --git a/b.c b/b.c'' @ [CR, LF] @ str ''+q'')
     (map PyStr [str ''.png'']) =
     Inr (str ''intro'' @ [LF] @ str ''diff --git a/b.c b/b.c'' @ [LF] @ str ''+q'' @ [LF]) \<and>
   filter_excluded_files
     (str ''intro'' @ [LF] @ str ''diff --git a/b.c b/b.c'' @ [LF] @ str ''+q'' @ [LF])
     (map PyStr [str ''.png'']) =
     Inr (str ''intro'' @ [LF] @ str ''diff --git a/b.c b/b.c'' @ [LF] @ str ''+q'' @ [LF])"
  using filter_idempotent[of
      "str ''intro'' @ [CR, LF] @ str ''diff --git a/a.png b/a.png'' @ [CR, LF] @ str ''-p'' @
       [CR, LF] @ str ''diff --git a/b.c b/b.c'' @ [CR, LF] @ str ''+q''"
      "[str ''.png'']"]
  by (simp add: py_eval)

section \<open>Chunks of a diff that starts with a header\<close>

text \<open>
  Claim C1. For every diff text whose first line starts with \<open>diff --git \<close> and every
  list of string suffixes, the filter returns the lines of the chunks that the policy
  does not exclude, chunk after chunk in the order of the input and line after line in
  the order of the chunk, joined by newlines, with one newline appended. The chunks
  partition the lines of the input, each chunk begins with its header line and holds no
  other header line, and a chunk is in the output with all its lines, its header line
  among them, or with none.
\<close>

theorem filter_keeps_non_excluded_chunks:
  assumes "splitlines D = h # rest" and "is_header h"
  shows "filter_excluded_files D (map PyStr S) =
           Inr (filtered_diff_text (chunk_excluded S) (splitlines D)) \<and>
         concat (chunks (splitlines D)) = splitlines D \<and>
         (\<forall>c\<in>set (chunks (splitlines D)).
            c \<noteq> [] \<and> is_header (hd c) \<and> (\<forall>l\<in>set (tl c). \<not> is_header l))"
proof -
  have "splitlines D = [] \<or> is_header (hd (splitlines D))"
    using assms by simp
  then have "\<forall>c\<in>set (chunks (splitlines D)).
      c \<noteq> [] \<and> is_header (hd c) \<and> (\<forall>l\<in>set (tl c). \<not> is_header l)"
    by (rule chunks_well_formed)
  with filter_first_line_header[OF assms, of S] concat_chunks[of "splitlines D"]
  show ?thesis by blast
qed

theorem filter_keeps_non_excluded_chunks_witness:
  "splitlines
     (str ''diff --git a/a.c b/a.c'' @ [LF] @ str ''+1'' @ [LF] @
      str ''diff --git a/i.svg b/i.svg'' @ [LF] @ str ''+2'' @ [LF] @
      str ''diff --git a/b.c b/b.c'' @ [LF] @ str ''+3'' @ [LF]) =
     str ''diff --git a/a.c b/a.c'' #
     [str ''+1'', str ''diff --git a/i.svg b/i.svg'', str ''+2'',
      str ''diff --git a/b.c b/b.c'', str ''+3''] \<and>
   is_header (str ''diff --git a/a.c b/a.c'') \<and>
   filter_excluded_files
     (str ''diff --git a/a.c b/a.c'' @ [LF] @ str ''+1'' @ [LF] @
      str ''diff --git a/i.svg b/i.svg'' @ [LF] @ str ''+2'' @ [LF] @
      str ''diff --git a/b.c b/b.c'' @ [LF] @ str ''+3'' @ [LF])
     (map PyStr [str ''.svg'']) =
     Inr (str ''diff --git a/a.c b/a.c'' @ [LF] @ str ''+1'' @ [LF] @
          str ''diff --git a/b.c b/b.c'' @ [LF] @ str ''+3'' @ [LF])"
  using filter_keeps_non_excluded_chunks[of
      "str ''diff --git a/a.c b/a.c'' @ [LF] @ str ''+1'' @ [LF] @
       str ''diff --git a/i.svg b/i.svg'' @ [LF] @ str ''+2'' @ [LF] @
       str ''diff --git a/b.c b/b.c'' @ [LF] @ str ''+3'' @ [LF]"
      "str ''diff --git a/a.c b/a.c''"
      "[str ''+1'', str ''diff --git a/i.svg b/i.svg'', str ''+2'',
        str ''diff --git a/b.c b/b.c'', str ''+3'']"
      "[str ''.svg'']"]
  by (simp add: py_eval)

section \<open>Lines before the first header\<close>

text \<open>
  Claim C2, amended. For every diff text that is not whitespace only and has no line
  that starts with \<open>diff --git \<close>, the filter returns all the lines of the input, joined
  by newlines, with one newline appended, whatever the suffix list holds. More
  generally, with string suffixes, the lines that precede the first header line are
  kept, in order, at the start of the output, before the chunks that are not excluded.
\<close>

theorem lines_before_first_header_kept:
  assumes "\<exists>c\<in>set D. \<not> is_space c"
  shows "((\<forall>l\<in>set (splitlines D). \<not> is_header l) \<longrightarrow>
            filter_excluded_files D exts = Inr (join [LF] (splitlines D) @ [LF])) \<and>
         filter_excluded_files D (map PyStr S) =
           Inr (join [LF]
                  (takeWhile (\<lambda>l. \<not> is_header l) (splitlines D) @
                   concat (filter (\<lambda>c. \<not> chunk_excluded S (hd c))
                     (chunks (dropWhile (\<lambda>l. \<not> is_header l) (splitlines D))))) @ [LF])"
proof -
  have nb: "strip D \<noteq> []"
    using assms by (simp add: strip_empty_iff)
  have one: "filter_excluded_files D exts = Inr (join [LF] (splitlines D) @ [LF])"
    if "\<forall>l\<in>set (splitlines D). \<not> is_header l"
  proof -
    have "\<forall>l\<in>set (splitlines D). is_header l \<longrightarrow> header_skip l exts = Inr ((\<lambda>_. False) l)"
      using that by simp
    with nb have "filter_excluded_files D exts =
        Inr (join [LF] (keep_lines (\<lambda>_. False) False (splitlines D)) @ [LF])"
      by (rule filter_kept_lines)
    then show ?thesis by (simp add: keep_lines_all)
  qed
  have two: "filter_excluded_files D (map PyStr S) =
      Inr (join [LF]
             (takeWhile (\<lambda>l. \<not> is_header l) (splitlines D) @
              concat (filter (\<lambda>c. \<not> chunk_excluded S (hd c))
                (chunks (dropWhile (\<lambda>l. \<not> is_header l) (splitlines D))))) @ [LF])"
    using filter_str_kept[OF nb, of S]
      keep_lines_preamble[of "chunk_excluded S" "splitlines D"] by simp
  from one two show ?thesis by blast
qed

theorem lines_before_first_header_kept_witness:
  "filter_excluded_files (str ''not a diff'' @ [LF] @ str ''at all'') [PyNone] =
     Inr (str ''not a diff'' @ [LF] @ str ''at all'' @ [LF]) \<and>
   filter_excluded_files
     (str ''note'' @ [LF] @ str ''diff --git a/a.png b/a.png'' @ [LF] @ str ''-p'' @ [LF] @
      str ''diff --git a/b.c b/b.c'' @ [LF] @ str ''+q'')
     (map PyStr [str ''.png'']) =
     Inr (str ''note'' @ [LF] @ str ''diff --git a/b.c b/b.c'' @ [LF] @ str ''+q'' @ [LF])"
  using lines_before_first_header_kept[of
      "str ''not a diff'' @ [LF] @ str ''at all''" "[PyNone]" "[]"]
    lines_before_first_header_kept[of
      "str ''note'' @ [LF] @ str ''diff --git a/a.png b/a.png'' @ [LF] @ str ''-p'' @ [LF] @
       str ''diff --git a/b.c b/b.c'' @ [LF] @ str ''+q''"
      "[]" "[str ''.png'']"]
  by (simp add: py_eval)

text \<open>
  The statement of claim C2 as it was given, that such a text yields a single newline,
  fails on the text \<open>hello\<close>: it is one line, not a header line, and it is kept.
\<close>

theorem no_header_input_counterexample:
  "strip (str ''hello'') \<noteq> [] \<and>
   splitlines (str ''hello'') = [str ''hello''] \<and>
   \<not> startswith (str ''hello'') diff_header_prefix \<and>
   filter_excluded_files (str ''hello'') (map PyStr [str ''.png'']) = Inr (str ''hello'' @ [LF]) \<and>
   filter_excluded_files (str ''hello'') (map PyStr [str ''.png'']) \<noteq> Inr [LF]"
  by (simp add: py_eval)

section \<open>Suffix entries that are not strings\<close>

text \<open>
  Claim C3, amended. The filter does not validate the suffix list. It fails, and then
  with \<open>TypeError\<close>, if and only if the diff text is not whitespace only and the scan
  meets a header line at which the loop over the suffixes raises; such a header line
  has at least four tokens, and an entry that is a number raises there when no string
  entry before it matches. For every other input the entry is never looked at and the
  filter returns normally.
\<close>

theorem suffix_entries_checked_lazily:
  "(filter_excluded_files D exts = Inl e \<longrightarrow> e = TypeError) \<and>
   ((\<exists>e. filter_excluded_files D exts = Inl e) \<longleftrightarrow>
      (\<exists>c\<in>set D. \<not> is_space c) \<and>
      (\<exists>l\<in>set (splitlines D). is_header l \<and> (\<exists>e. header_skip l exts = Inl e))) \<and>
   (header_skip l exts = Inl e \<longrightarrow> 4 \<le> length (split_ws l)) \<and>
   (\<not> (\<exists>s\<in>set pre. endswith a s \<or> endswith b s) \<longrightarrow>
      check_exts a b (map PyStr pre @ PyInt n # rest) = Inl TypeError)"
proof -
  have one: "filter_excluded_files D exts = Inl e \<longrightarrow> e = TypeError"
    by (auto simp: filter_excluded_files_def split: if_splits sum.splits dest: scan_error)
  have "(\<exists>e. filter_excluded_files D exts = Inl e) \<longleftrightarrow>
      strip D \<noteq> [] \<and> (\<exists>e. scan_lines exts init_state (splitlines D) = Inl e)"
    by (auto simp: filter_excluded_files_def split: sum.splits)
  then have two: "(\<exists>e. filter_excluded_files D exts = Inl e) \<longleftrightarrow>
      (\<exists>c\<in>set D. \<not> is_space c) \<and>
      (\<exists>l\<in>set (splitlines D). is_header l \<and> (\<exists>e. header_skip l exts = Inl e))"
    by (simp add: scan_fails_iff strip_empty_iff)
  have three: "header_skip l exts = Inl e \<longrightarrow> 4 \<le> length (split_ws l)"
    by (auto simp: header_skip_def Let_def split: if_splits)
  have four: "\<not> (\<exists>s\<in>set pre. endswith a s \<or> endswith b s) \<longrightarrow>
      check_exts a b (map PyStr pre @ PyInt n # rest) = Inl TypeError"
    by (simp add: check_exts_append_str)
  from one two three four show ?thesis by blast
qed

theorem suffix_entries_checked_lazily_witness:
  "filter_excluded_files
     (str ''diff --git a/y.png b/y.png'' @ [LF] @ str ''diff --git a/y.c b/y.c'')
     [PyStr (str ''.png''), PyNone] = Inl TypeError \<and>
   header_skip (str ''diff --git a/y.c b/y.c'') [PyStr (str ''.png''), PyNone] = Inl TypeError \<and>
   header_skip (str ''diff --git a/y.png b/y.png'') [PyStr (str ''.png''), PyNone] = Inr True \<and>
   check_exts (str ''y.c'') (str ''y.c'') (map PyStr [str ''.png''] @ PyInt 7 # []) =
     Inl TypeError"
  using suffix_entries_checked_lazily[of
      "str ''diff --git a/y.png b/y.png'' @ [LF] @ str ''diff --git a/y.c b/y.c''"
      "[PyStr (str ''.png''), PyNone]" TypeError "str ''diff --git a/y.c b/y.c''"
      "[str ''.png'']" "str ''y.c''" "str ''y.c''" 7 "[]"]
  by (simp add: py_eval)

text \<open>
  The statement of claim C3 as it was given, that a suffix list with an entry that is
  not a string is rejected before any line is scanned, fails: with such an entry the
  filter returns normally on a text without a header line, on a header line with fewer
  than four tokens and on a header line that an earlier suffix matches, and it raises
  only at a header line that no earlier suffix matches.
\<close>

theorem non_string_suffix_counterexample:
  "filter_excluded_files (str ''+x = 1'') [PyInt 1] = Inr (str ''+x = 1'' @ [LF]) \<and>
   filter_excluded_files (str ''diff --git a/x'') [PyInt 1] =
     Inr (str ''diff --git a/x'' @ [LF]) \<and>
   filter_excluded_files (str ''diff --git a/x.png b/x.png'') [PyStr (str ''.png''), PyInt 1] =
     Inr [LF] \<and>
   filter_excluded_files (str ''diff --git a/x.c b/x.c'') [PyStr (str ''.png''), PyInt 1] =
     Inl TypeError"
  by (simp add: py_eval)

section \<open>When a chunk is dropped\<close>



section \<open>Chunk boundaries\<close>

text \<open>
  Claim C6. A line starts a new chunk if and only if it starts with the literal
  \<open>diff --git \<close>. A line that does not start with it, also one that contains it further
  on, is appended to the current chunk and changes neither the kept lines nor the skip
  flag; a line that starts with it closes the current chunk and becomes the first line
  of the next one. So the lines after a header line stay in its chunk up to the next
  line that starts with the literal.
\<close>

theorem chunk_boundary_is_line_prefix:
  "(\<not> startswith l diff_header_prefix \<longrightarrow>
      process_line exts st l =
        Inr (st\<lparr>current_chunk_lines := current_chunk_lines st @ [l]\<rparr>)) \<and>
   (startswith l diff_header_prefix \<and> header_skip l exts = Inr sk \<longrightarrow>
      process_line exts st l =
        Inr ((finalize_chunk st)\<lparr>current_chunk_lines := [l], skip_current_chunk := sk\<rparr>)) \<and>
   (startswith h diff_header_prefix \<and> header_skip h exts = Inr sk \<and>
    (\<forall>x\<in>set body. \<not> startswith x diff_header_prefix) \<longrightarrow>
      scan_lines exts st (h # body) =
        Inr ((finalize_chunk st)\<lparr>current_chunk_lines := h # body, skip_current_chunk := sk\<rparr>))"
proof -
  have one: "\<not> startswith l diff_header_prefix \<longrightarrow>
      process_line exts st l =
        Inr (st\<lparr>current_chunk_lines := current_chunk_lines st @ [l]\<rparr>)"
    by (simp add: process_line_def)
  have two: "startswith l diff_header_prefix \<and> header_skip l exts = Inr sk \<longrightarrow>
      process_line exts st l =
        Inr ((finalize_chunk st)\<lparr>current_chunk_lines := [l], skip_current_chunk := sk\<rparr>)"
    by (simp add: process_line_def Let_def)
  have three: "scan_lines exts st (h # body) =
        Inr ((finalize_chunk st)\<lparr>current_chunk_lines := h # body, skip_current_chunk := sk\<rparr>)"
    if "startswith h diff_header_prefix" and "header_skip h exts = Inr sk"
      and "\<forall>x\<in>set body. \<not> startswith x diff_header_prefix"
  proof -
    have "process_line exts st h =
        Inr ((finalize_chunk st)\<lparr>current_chunk_lines := [h], skip_current_chunk := sk\<rparr>)"
      using that(1,2) by (simp add: process_line_def Let_def)
    moreover have "\<forall>x\<in>set body. \<not> is_header x"
      using that(3) by (simp add: is_header_def)
    ultimately show ?thesis
      by (simp add: scan_body)
  qed
  from one two three show ?thesis by blast
qed

theorem chunk_boundary_is_line_prefix_witness:
  "\<not> startswith (str ''+see diff --git a/x.png b/x.png'') diff_header_prefix \<and>
   py_in diff_header_prefix (str ''+see diff --git a/x.png b/x.png'') \<and>
   scan_lines (map PyStr [str ''.png'']) init_state
     [str ''diff --git a/readme.md b/readme.md'', str ''+see diff --git a/x.png b/x.png''] =
     Inr \<lparr>kept_chunks = [],
          current_chunk_lines =
            [str ''diff --git a/readme.md b/readme.md'', str ''+see diff --git a/x.png b/x.png''],
          skip_current_chunk = False\<rparr> \<and>
   filter_excluded_files
     (str ''diff --git a/readme.md b/readme.md'' @ [LF] @ str ''+see diff --git a/x.png b/x.png'')
     (map PyStr [str ''.png'']) =
     Inr (str ''diff --git a/readme.md b/readme.md'' @ [LF] @
          str ''+see diff --git a/x.png b/x.png'' @ [LF])"
  using chunk_boundary_is_line_prefix[of
      "str ''+see diff --git a/x.png b/x.png''" "map PyStr [str ''.png'']" init_state
      False "str ''diff --git a/readme.md b/readme.md''"
      "[str ''+see diff --git a/x.png b/x.png'']"]
  by (simp add: py_eval)

section \<open>The exit status\<close>

text \<open>
  Claim C9. The decision layer exits with status 0 if the filtered diff is empty or
  whitespace only, with status 0 if the verdict of the review contains \<open>APPROVED\<close>
  anywhere as a substring, and with status 1 in every other case.
\<close>

theorem decision_exit_code:
  "main_decision review F ctx =
     (if (\<forall>c\<in>set F. is_space c) \<or> (\<exists>u v. review F ctx = u @ APPROVED @ v) then 0 else 1)"
  by (simp add: main_decision_def strip_empty_iff py_in_iff Let_def)

theorem decision_exit_code_witness:
  "main_decision (\<lambda>d c. str ''Looks fine. APPROVED'') (str ''+x = 1'') (str ''Staged changes'') = 0 \<and>
   main_decision (\<lambda>d c. str ''Possible null dereference'') (str ''+x = 1'') (str ''Staged changes'') = 1 \<and>
   main_decision (\<lambda>d c. str ''Possible null dereference'') [LF] (str ''Staged changes'') = 0"
proof -
  let ?ok = "\<lambda>d c :: pystr. str ''Looks fine. APPROVED''"
  let ?no = "\<lambda>d c :: pystr. str ''Possible null dereference''"
  have "?ok (str ''+x = 1'') (str ''Staged changes'') = str ''Looks fine. '' @ APPROVED @ []"
    by (simp add: py_eval)
  then have "\<exists>u v. ?ok (str ''+x = 1'') (str ''Staged changes'') = u @ APPROVED @ v"
    by blast
  then have a: "main_decision ?ok (str ''+x = 1'') (str ''Staged changes'') = 0"
    using decision_exit_code[of ?ok "str ''+x = 1''" "str ''Staged changes''"]
    by (simp only: simp_thms if_True)
  have "\<not> py_in APPROVED (str ''Possible null dereference'')"
    by (simp add: py_eval)
  then have n: "\<not> (\<exists>u v. ?no (str ''+x = 1'') (str ''Staged changes'') = u @ APPROVED @ v)"
    by (simp only: py_in_iff simp_thms)
  have "\<not> (\<forall>c\<in>set (str ''+x = 1''). is_space c)"
    by (simp add: py_eval)
  with n have b: "main_decision ?no (str ''+x = 1'') (str ''Staged changes'') = 1"
    using decision_exit_code[of ?no "str ''+x = 1''" "str ''Staged changes''"]
    by (simp only: simp_thms if_False)
  have "\<forall>c\<in>set [LF]. is_space c"
    by (simp add: py_eval)
  then have "(\<forall>c\<in>set [LF]. is_space c) \<or>
      (\<exists>u v. ?no [LF] (str ''Staged changes'') = u @ APPROVED @ v)"
    by (rule disjI1)
  then have c: "main_decision ?no [LF] (str ''Staged changes'') = 0"
    using decision_exit_code[of ?no "[LF]" "str ''Staged changes''"]
    by (simp only: simp_thms if_True)
  from a b c show ?thesis by blast
qed

section \<open>The empty suffix\<close>

text \<open>
  Claim C10. If the empty string is among the string suffixes of the policy, the skip
  flag of a header line is set exactly when the line has at least four tokens, whatever
  its paths are, so the filtered diff holds only the chunks whose header line has fewer
  than four tokens.
\<close>

theorem empty_suffix_drops_every_parsed_chunk:
  assumes "[] \<in> set S"
  shows "header_skip h (map PyStr S) = Inr (4 \<le> length (split_ws h)) \<and>
         (splitlines D = h0 # rest \<and> is_header h0 \<longrightarrow>
            filter_excluded_files D (map PyStr S) =
              Inr (filtered_diff_text (\<lambda>x. 4 \<le> length (split_ws x)) (splitlines D)))"
proof -
  have em: "endswith y []" for y
    by (simp add: endswith_def)
  have e: "chunk_excluded S x = (4 \<le> length (split_ws x))" for x
    using assms em unfolding chunk_excluded_def Let_def by blast
  then have "chunk_excluded S = (\<lambda>x. 4 \<le> length (split_ws x))"
    by (simp add: fun_eq_iff)
  with filter_first_line_header[of D h0 rest S] e[of h] show ?thesis
    by (simp add: header_skip_str)
qed

theorem empty_suffix_drops_every_parsed_chunk_witness:
  "[] \<in> set [[], str ''.png''] \<and>
   header_skip (str ''diff --git a/x.c b/x.c'') (map PyStr [[], str ''.png'']) = Inr True \<and>
   filter_excluded_files
     (str ''diff --git a/x.c b/x.c'' @ [LF] @ str ''+1'' @ [LF] @ str ''diff --git a/y'' @ [LF] @
      str ''+2'')
     (map PyStr [[], str ''.png'']) =
     Inr (str ''diff --git a/y'' @ [LF] @ str ''+2'' @ [LF])"
  using empty_suffix_drops_every_parsed_chunk[of
      "[[], str ''.png'']" "str ''diff --git a/x.c b/x.c''"
      "str ''diff --git a/x.c b/x.c'' @ [LF] @ str ''+1'' @ [LF] @ str ''diff --git a/y'' @ [LF] @
       str ''+2''"
      "str ''diff --git a/x.c b/x.c''"
      "[str ''+1'', str ''diff --git a/y'', str ''+2'']"]
  by (simp add: py_eval)

end
